theory Spec2Isabelle
  imports Main "HOL-Library.Word" "HOL-Library.AList"
begin

unbundle bit_operations_syntax

section \<open>Package memstore: temporary storage kept in memory\<close>

text \<open>
  The Go package \<^verbatim>\<open>memstore\<close> (file \<^verbatim>\<open>common/tempstorage/memstore/memstore.go\<close>)
  keeps named byte buffers in a \<^verbatim>\<open>sync.Map\<close> and hands out file objects that read
  from and append to them. The source is obfuscated; the model keeps its identifiers,
  without the leading underscore that Isabelle does not allow:

  \<^item> \<^verbatim>\<open>memDataCell{_dfb, _fef, _feg}\<close>: the name, the content and the size of a cell;
  \<^item> \<^verbatim>\<open>memFile{_df, _gf}\<close>: the cell a file object points to and its read offset;
  \<^item> \<^verbatim>\<open>memStorage{_ac}\<close>: the \<^verbatim>\<open>sync.Map\<close> from names to cell pointers;
  \<^item> \<^verbatim>\<open>_efc\<close>: the random hexadecimal token, \<^verbatim>\<open>_eb\<close>: a pattern followed by a token.

  Cells and file objects are reached through pointers (\<^verbatim>\<open>*memDataCell\<close>,
  \<^verbatim>\<open>*memFile\<close>) and a cell is shared by the map and by every file object opened on
  it, so both live in an explicit heap: a pointer is an index into the list of allocated
  objects, an allocation appends to the list, and nothing is ever freed (a cell deleted
  from the map stays reachable from the file objects that point to it, as under Go's
  garbage collector).

  Integers. \<^verbatim>\<open>_feg\<close> and \<^verbatim>\<open>_gf\<close> are \<^verbatim>\<open>int64\<close>, lengths are \<^verbatim>\<open>int\<close>. The size \<^verbatim>\<open>_feg\<close>
  grows only by the lengths of the buffers appended to the content, so it never exceeds
  the length of the content; the offset \<^verbatim>\<open>_gf\<close> never exceeds the size; and the one sum
  that \<^verbatim>\<open>Read\<close> forms, \<^verbatim>\<open>_ga + _cb\<close>, is at most twice the length of the content
  (\<open>state_ok\<close> below is this invariant, \<open>reachable_state_ok\<close> its proof). A Go slice has
  fewer than \<open>2^48\<close> elements on every supported platform, so in the states the package
  can reach no addition leaves the range of \<^verbatim>\<open>int64\<close>. The model sets the failure of a
  memory allocation aside, as the specification does, takes slices of any length, and
  so uses \<open>int\<close> for these integers, with the signed comparisons of the source.
\<close>

subsection \<open>Data\<close>

type_synonym byte = "8 word"

type_synonym addr = nat

text \<open>
  Error values: \<^verbatim>\<open>io.EOF\<close>, an \<^verbatim>\<open>errors.New\<close> with its message, and an error made
  outside this package (by \<^verbatim>\<open>ioutil.ReadFile\<close> or by \<^verbatim>\<open>rand.Read\<close>), identified by
  its text. A returned \<^verbatim>\<open>error\<close> is an \<open>error option\<close>, \<open>None\<close> for \<^verbatim>\<open>nil\<close>.
\<close>

datatype error = io_EOF | errors_New string | foreign_error string

text \<open>Run-time panics of the operations the package performs on pointers and slices.\<close>

datatype panic = nil_pointer_dereference | slice_bounds_out_of_range

record memDataCell =
  dfb :: string
  fef :: "byte list"
  feg :: int

record memFile =
  df :: addr
  gf :: int

text \<open>
  The state of the program as far as this package sees it: the allocated cells, the
  allocated file objects, and the content of the one \<^verbatim>\<open>memStorage\<close> value
  (its field \<^verbatim>\<open>_ac\<close>), as an association list from keys to cell pointers.
\<close>

record state =
  cells :: "memDataCell list"
  files :: "memFile list"
  ac :: "(string \<times> addr) list"

definition cell_at :: "state \<Rightarrow> addr \<Rightarrow> memDataCell option" where
  "cell_at s a = (if a < length (cells s) then Some (cells s ! a) else None)"

definition file_at :: "state \<Rightarrow> addr \<Rightarrow> memFile option" where
  "file_at s a = (if a < length (files s) then Some (files s ! a) else None)"

subsection \<open>The library functions the package calls\<close>

text \<open>
  \<^verbatim>\<open>sync.Map\<close>, used sequentially: \<^verbatim>\<open>Store\<close> replaces or adds the entry of a key,
  \<^verbatim>\<open>Load\<close> looks a key up, \<^verbatim>\<open>Delete\<close> removes it, and \<^verbatim>\<open>Range\<close> calls its argument
  once for every entry present when it starts (the callback may change the map, and
  stops the iteration by returning false).
\<close>

definition sync_Map_Store :: "string \<Rightarrow> addr \<Rightarrow> (string \<times> addr) list \<Rightarrow> (string \<times> addr) list" where
  "sync_Map_Store k v m = AList.update k v m"

definition sync_Map_Load :: "(string \<times> addr) list \<Rightarrow> string \<Rightarrow> addr option" where
  "sync_Map_Load m k = map_of m k"

definition sync_Map_Delete :: "string \<Rightarrow> (string \<times> addr) list \<Rightarrow> (string \<times> addr) list" where
  "sync_Map_Delete k m = AList.delete k m"

fun range_loop ::
  "(string \<Rightarrow> addr \<Rightarrow> (string \<times> addr) list \<Rightarrow> (string \<times> addr) list \<times> bool) \<Rightarrow>
   (string \<times> addr) list \<Rightarrow> (string \<times> addr) list \<Rightarrow> (string \<times> addr) list" where
  "range_loop f [] m = m"
| "range_loop f ((k, v) # es) m =
     (case f k v m of (m', continue) \<Rightarrow> if continue then range_loop f es m' else m')"

definition sync_Map_Range ::
  "(string \<Rightarrow> addr \<Rightarrow> (string \<times> addr) list \<Rightarrow> (string \<times> addr) list \<times> bool) \<Rightarrow>
   (string \<times> addr) list \<Rightarrow> (string \<times> addr) list" where
  "sync_Map_Range f m = range_loop f m m"

text \<open>
  The built-in \<^verbatim>\<open>copy(dst, src)\<close>: it overwrites the first
  \<open>min (len dst) (len src)\<close> bytes of \<open>dst\<close> and returns that number; the result here is
  the number and the new content of \<open>dst\<close>. \<^verbatim>\<open>xs[lo:hi]\<close> on a slice whose capacity
  is its length is \<open>go_slice xs lo hi\<close>, after the bounds check \<open>0 \<le> lo \<le> hi \<le> len xs\<close>
  that the callers below write out.
\<close>

definition go_copy :: "byte list \<Rightarrow> byte list \<Rightarrow> int \<times> byte list" where
  "go_copy dst src =
     (let k = min (length dst) (length src) in (int k, take k src @ drop k dst))"

definition go_slice :: "byte list \<Rightarrow> int \<Rightarrow> int \<Rightarrow> byte list" where
  "go_slice xs lo hi = take (nat hi - nat lo) (drop (nat lo) xs)"

text \<open>
  \<^verbatim>\<open>hex.EncodeToString\<close>: two lower-case hexadecimal digits for every byte, the high
  nibble first.
\<close>

definition hextable :: string where
  "hextable = ''0123456789abcdef''"

definition hex_EncodeToString :: "byte list \<Rightarrow> string" where
  "hex_EncodeToString src =
     concat (map (\<lambda>v. [hextable ! unat (drop_bit 4 v), hextable ! unat (v AND 0x0f)]) src)"

text \<open>
  \<^verbatim>\<open>rand.Read(b)\<close> of \<^verbatim>\<open>math/rand\<close> writes pseudo-random bytes into \<open>b\<close> and returns
  an error value. What one call does is a parameter of the model: the bytes the source
  has ready and the error it reports. The bytes overwrite a prefix of the buffer, whose
  length does not change.
\<close>

type_synonym rand_source = "byte list \<times> error option"

definition rand_Read :: "rand_source \<Rightarrow> byte list \<Rightarrow> byte list \<times> error option" where
  "rand_Read r b = (snd (go_copy b (fst r)), snd r)"

text \<open>
  \<^verbatim>\<open>ioutil.ReadFile\<close> reads the host file system, a parameter of the model: for every
  path either an error or the bytes of the file.
\<close>

type_synonym filesystem = "string \<Rightarrow> error + byte list"

definition ioutil_ReadFile :: "filesystem \<Rightarrow> string \<Rightarrow> error + byte list" where
  "ioutil_ReadFile fs path = fs path"

subsection \<open>The file object\<close>

text \<open>
  \<^verbatim>\<open>func (_da *memFile) Write(p []byte) (int, error)\<close>: appends \<open>p\<close> to the content of
  the cell and adds its length to the size.
\<close>

definition memFile_Write ::
  "addr \<Rightarrow> byte list \<Rightarrow> state \<Rightarrow> panic + ((int \<times> error option) \<times> state)" where
  "memFile_Write da p s =
     (case file_at s da of
        None \<Rightarrow> Inl nil_pointer_dereference
      | Some f \<Rightarrow>
         (case cell_at s (df f) of
            None \<Rightarrow> Inl nil_pointer_dereference
          | Some c \<Rightarrow>
              Inr ((int (length p), None),
                   s\<lparr>cells := (cells s)[df f :=
                        c\<lparr>fef := fef c @ p, feg := feg c + int (length p)\<rparr>]\<rparr>)))"

text \<open>\<^verbatim>\<open>func (_a *memFile) Name() string\<close>: the name field of the cell.\<close>

definition memFile_Name :: "addr \<Rightarrow> state \<Rightarrow> panic + (string \<times> state)" where
  "memFile_Name a s =
     (case file_at s a of
        None \<Rightarrow> Inl nil_pointer_dereference
      | Some f \<Rightarrow>
         (case cell_at s (df f) of
            None \<Rightarrow> Inl nil_pointer_dereference
          | Some c \<Rightarrow> Inr (dfb c, s)))"

text \<open>
  \<^verbatim>\<open>func (_bg *memFile) Read(p []byte) (int, error)\<close>. The result holds the returned
  pair, the content of the caller's buffer after the call, and the new state. The
  steps follow the source: the local \<open>_cb\<close> and the local slice \<open>p\<close> are cut to the
  size of the cell (\<^verbatim>\<open>p[:_cb]\<close> panics on a negative bound), an offset at or past the
  size gives \<^verbatim>\<open>io.EOF\<close>, the end \<open>_e\<close> is capped by the size, and the bytes of
  \<^verbatim>\<open>_fef[_ga:_e]\<close> are copied into the cut slice, which is a prefix of the caller's
  buffer.
\<close>

definition memFile_Read ::
  "addr \<Rightarrow> byte list \<Rightarrow> state \<Rightarrow> panic + ((int \<times> error option) \<times> byte list \<times> state)" where
  "memFile_Read bg p s =
     (case file_at s bg of
        None \<Rightarrow> Inl nil_pointer_dereference
      | Some f \<Rightarrow>
         (case cell_at s (df f) of
            None \<Rightarrow> Inl nil_pointer_dereference
          | Some c \<Rightarrow>
             (let ga = gf f; fe = feg c; cb = int (length p) in
              if cb > fe \<and> fe < 0 then Inl slice_bounds_out_of_range
              else
                let cb1 = (if cb > fe then fe else cb);
                    p1 = (if cb > fe then take (nat fe) p else p)
                in
                if ga \<ge> fe then Inr ((0, Some io_EOF), p, s)
                else
                  let e = ga + cb1;
                      e1 = (if e \<ge> fe then fe else e)
                  in
                  if ga < 0 \<or> e1 < ga \<or> int (length (fef c)) < e1
                  then Inl slice_bounds_out_of_range
                  else
                    (case go_copy p1 (go_slice (fef c) ga e1) of
                       (gfe, q) \<Rightarrow>
                         Inr ((gfe, None), q @ drop (length p1) p,
                              s\<lparr>files := (files s)[bg := f\<lparr>gf := e1\<rparr>]\<rparr>)))))"

text \<open>\<^verbatim>\<open>func (_ef *memFile) Close() error\<close>: returns \<^verbatim>\<open>nil\<close> and touches nothing.\<close>

definition memFile_Close :: "addr \<Rightarrow> state \<Rightarrow> error option \<times> state" where
  "memFile_Close ef s = (None, s)"

subsection \<open>Name generation\<close>

text \<open>
  \<^verbatim>\<open>func _efc(_efd int) (string, error)\<close>: a zeroed buffer of \<open>_efd\<close> bytes is handed to
  \<^verbatim>\<open>rand.Read\<close>; on an error the result is the empty string and the error, otherwise
  the hexadecimal encoding of the buffer.
\<close>

definition efc :: "rand_source \<Rightarrow> nat \<Rightarrow> string \<times> error option" where
  "efc r efd =
     (let gfb = replicate efd (0 :: byte) in
      case rand_Read r gfb of
        (gfb1, Some gd) \<Rightarrow> ('''', Some gd)
      | (gfb1, None) \<Rightarrow> (hex_EncodeToString gfb1, None))"

text \<open>
  \<^verbatim>\<open>func _eb(_eg string) string {_bc, _ := _efc(6); return _eg + _bc}\<close>: the error of
  \<open>_efc\<close> is assigned to the blank identifier.
\<close>

definition eb :: "rand_source \<Rightarrow> string \<Rightarrow> string" where
  "eb r eg = (case efc r 6 of (bc, _) \<Rightarrow> eg @ bc)"

subsection \<open>The storage\<close>

text \<open>\<^verbatim>\<open>SetAsStorage\<close> makes the storage with an empty map; nothing is allocated yet.\<close>

definition SetAsStorage :: state where
  "SetAsStorage = \<lparr>cells = [], files = [], ac = []\<rparr>"

text \<open>
  \<^verbatim>\<open>func (_bf *memStorage) RemoveAll(dir string) error\<close>: \<^verbatim>\<open>Range\<close> over the map with
  a callback that deletes the key it is given and returns true.
\<close>

definition memStorage_RemoveAll :: "string \<Rightarrow> state \<Rightarrow> error option \<times> state" where
  "memStorage_RemoveAll dir s =
     (None, s\<lparr>ac := sync_Map_Range (\<lambda>bfd gfd m. (sync_Map_Delete bfd m, True)) (ac s)\<rparr>)"

text \<open>\<^verbatim>\<open>func (_eed *memStorage) TempDir(pattern string) (string, error)\<close>.\<close>

definition memStorage_TempDir ::
  "rand_source \<Rightarrow> string \<Rightarrow> state \<Rightarrow> (string \<times> error option) \<times> state" where
  "memStorage_TempDir r pattern s = ((eb r pattern, None), s)"

text \<open>
  \<^verbatim>\<open>func (_fd *memStorage) Add(path string) error\<close>: on a read error the error is
  returned; otherwise a new cell with the name and the content is allocated (the
  composite literal leaves \<open>_feg\<close> at its zero value) and stored under \<open>path\<close>.
\<close>

definition memStorage_Add :: "filesystem \<Rightarrow> string \<Rightarrow> state \<Rightarrow> error option \<times> state" where
  "memStorage_Add fs path s =
     (case ioutil_ReadFile fs path of
        Inl agb \<Rightarrow> (Some agb, s)
      | Inr ge \<Rightarrow>
          (None,
           s\<lparr>cells := cells s @ [\<lparr>dfb = path, fef = ge, feg = 0\<rparr>],
             ac := sync_Map_Store path (length (cells s)) (ac s)\<rparr>))"

text \<open>
  \<^verbatim>\<open>func (_cc *memStorage) TempFile(dir, pattern string) (File, error)\<close>: the name is
  \<open>dir\<close>, a slash and \<open>_eb(pattern)\<close>; an empty cell and a file object on it are
  allocated, the cell is stored under the name, the file object is returned.
\<close>

definition memStorage_TempFile ::
  "rand_source \<Rightarrow> string \<Rightarrow> string \<Rightarrow> state \<Rightarrow> (addr option \<times> error option) \<times> state" where
  "memStorage_TempFile r dir pattern s =
     (let gc = dir @ ''/'' @ eb r pattern;
          fege = length (cells s);
          beg = length (files s)
      in ((Some beg, None),
          s\<lparr>cells := cells s @ [\<lparr>dfb = gc, fef = [], feg = 0\<rparr>],
            files := files s @ [\<lparr>df = fege, gf = 0\<rparr>],
            ac := sync_Map_Store gc fege (ac s)\<rparr>))"

text \<open>
  \<^verbatim>\<open>func (_cd *memStorage) Open(path string) (File, error)\<close>: a missing key gives a nil
  file and \<^verbatim>\<open>errors.New(fmt.Sprintf("Cannot open the file %s", path))\<close>; a key that is
  present gives a new file object on its cell, with the zero offset.
\<close>

definition memStorage_Open ::
  "string \<Rightarrow> state \<Rightarrow> (addr option \<times> error option) \<times> state" where
  "memStorage_Open path s =
     (case sync_Map_Load (ac s) path of
        None \<Rightarrow> ((None, Some (errors_New (''Cannot open the file '' @ path))), s)
      | Some ee \<Rightarrow>
          ((Some (length (files s)), None),
           s\<lparr>files := files s @ [\<lparr>df = ee, gf = 0\<rparr>]\<rparr>))"

subsection \<open>Reading a file object to its end\<close>

text \<open>
  The way a caller drains a file object (the loop of \<^verbatim>\<open>io.ReadAll\<close> and \<^verbatim>\<open>io.Copy\<close>,
  with a buffer of \<open>k\<close> bytes): call \<^verbatim>\<open>Read\<close>, keep the \<open>n\<close> bytes it reports, stop at the
  first error, and take \<^verbatim>\<open>io.EOF\<close> for the regular end, which is no error of the loop.
  With \<open>k = 0\<close> on a cell that has bytes left the loop never ends, so it is a partial
  function: \<open>None\<close> is the loop that does not return.
\<close>

partial_function (option) read_until_EOF ::
  "nat \<Rightarrow> addr \<Rightarrow> state \<Rightarrow> byte list \<Rightarrow> (panic + (byte list \<times> error option \<times> state)) option" where
  "read_until_EOF k h s acc =
     (case memFile_Read h (replicate k 0) s of
        Inl pn \<Rightarrow> Some (Inl pn)
      | Inr ((n, err), buf, s1) \<Rightarrow>
          (let acc1 = acc @ take (nat n) buf in
           case err of
             None \<Rightarrow> read_until_EOF k h s1 acc1
           | Some e \<Rightarrow> Some (Inr (acc1, if e = io_EOF then None else Some e, s1))))"

subsection \<open>The states the package can reach\<close>

text \<open>
  The invariant of the heap and the map: the size of a cell is not negative and does
  not exceed the length of its content; a file object points to an allocated cell and
  its offset lies between 0 and the size of that cell; the map holds pointers to
  allocated cells only. The reachable states are those that the exported operations
  produce from the state \<^verbatim>\<open>SetAsStorage\<close> leaves, whatever the file system and the
  random source do.
\<close>

definition state_ok :: "state \<Rightarrow> bool" where
  "state_ok s \<longleftrightarrow>
     (\<forall>a c. cell_at s a = Some c \<longrightarrow> 0 \<le> feg c \<and> feg c \<le> int (length (fef c))) \<and>
     (\<forall>h f. file_at s h = Some f \<longrightarrow>
        (\<exists>c. cell_at s (df f) = Some c \<and> 0 \<le> gf f \<and> gf f \<le> feg c)) \<and>
     (\<forall>k a. map_of (ac s) k = Some a \<longrightarrow> cell_at s a \<noteq> None)"

inductive reachable :: "state \<Rightarrow> bool" where
  start: "reachable SetAsStorage"
| by_Add: "reachable s \<Longrightarrow> reachable (snd (memStorage_Add fs path s))"
| by_Open: "reachable s \<Longrightarrow> reachable (snd (memStorage_Open path s))"
| by_TempFile: "reachable s \<Longrightarrow> reachable (snd (memStorage_TempFile r dir pattern s))"
| by_TempDir: "reachable s \<Longrightarrow> reachable (snd (memStorage_TempDir r pattern s))"
| by_RemoveAll: "reachable s \<Longrightarrow> reachable (snd (memStorage_RemoveAll dir s))"
| by_Write: "reachable s \<Longrightarrow> memFile_Write h p s = Inr (res, s') \<Longrightarrow> reachable s'"
| by_Read: "reachable s \<Longrightarrow> memFile_Read h p s = Inr (res, p', s') \<Longrightarrow> reachable s'"
| by_Name: "reachable s \<Longrightarrow> memFile_Name h s = Inr (n, s') \<Longrightarrow> reachable s'"
| by_Close: "reachable s \<Longrightarrow> reachable (snd (memFile_Close h s))"

section \<open>Properties\<close>

subsection \<open>Lists, slices and the map\<close>


lemma drop_take_drop: "a \<le> b \<Longrightarrow> drop a (take b p) @ drop b p = drop a (p::'a list)"
proof -
  assume ab: "a \<le> b"
  have "drop a p = drop a (take b p @ drop b p)" by simp
  also have "\<dots> = drop a (take b p) @ drop (a - length (take b p)) (drop b p)"
    by (rule drop_append)
  also have "drop (a - length (take b p)) (drop b p) = drop b p"
    using ab by (cases "b \<le> length p") (simp_all add: min_def)
  finally show ?thesis by simp
qed

lemma go_copy_short:
  "length src \<le> length dst \<Longrightarrow> go_copy dst src = (int (length src), src @ drop (length src) dst)"
  by (simp add: go_copy_def Let_def min_def)

lemma go_slice_nat:
  "lo \<le> hi \<Longrightarrow> hi \<le> length xs \<Longrightarrow>
     go_slice xs (int lo) (int hi) = take (hi - lo) (drop lo xs) \<and>
     length (go_slice xs (int lo) (int hi)) = hi - lo"
  by (simp add: go_slice_def)

lemma Read_eof:
  assumes "file_at s h = Some f" "cell_at s (df f) = Some c" "0 \<le> feg c" "feg c \<le> gf f"
  shows "memFile_Read h p s = Inr ((0, Some io_EOF), p, s)"
  using assms by (simp add: memFile_Read_def Let_def)

lemma Read_copy:
  assumes f: "file_at s h = Some f" and c: "cell_at s (df f) = Some c"
    and g0: "0 \<le> gf f" and lt: "gf f < feg c" and le: "feg c \<le> int (length (fef c))"
    and k: "k = min (length p) (nat (feg c - gf f))"
  shows "memFile_Read h p s = Inr ((int k, None), take k (drop (nat (gf f)) (fef c)) @ drop k p,
     s\<lparr>files := (files s)[h := f\<lparr>gf := gf f + int k\<rparr>]\<rparr>)"
proof -
  define z where "z = nat (feg c)"
  define g where "g = nat (gf f)"
  have fz: "feg c = int z" and gg: "gf f = int g" and gz: "g < z" and zl: "z \<le> length (fef c)"
    using g0 lt le by (simp_all add: z_def g_def)
  have kz: "k = min (length p) (z - g)"
    using k gz by (simp add: fz gg nat_diff_distrib' del: of_nat_diff)
  have e1: "int g + int (z - g) = int z" using gz by simp
  show ?thesis
  proof (cases "z < length p")
    case True
    then have k1: "k = z - g" using kz by simp
    have cp: "go_copy (take z p) (go_slice (fef c) (int g) (int z)) =
        (int (z - g), take (z - g) (drop g (fef c)) @ drop (z - g) (take z p))"
      using True zl gz go_slice_nat [of g z "fef c"] go_copy_short [of "go_slice (fef c) (int g) (int z)" "take z p"]
      by simp
    show ?thesis
      unfolding memFile_Read_def using True gz zl
      by (simp add: f c fz gg Let_def cp k1 e1 drop_take_drop del: of_nat_diff)
  next
    case False
    show ?thesis
    proof (cases "g + length p \<ge> z")
      case True
      then have k1: "k = z - g" using kz by simp
      have cp: "go_copy p (go_slice (fef c) (int g) (int z)) =
          (int (z - g), take (z - g) (drop g (fef c)) @ drop (z - g) p)"
        using True zl gz go_slice_nat [of g z "fef c"] go_copy_short [of "go_slice (fef c) (int g) (int z)" p]
        by simp
      show ?thesis
        unfolding memFile_Read_def using True False gz zl
        by (simp add: f c fz gg Let_def cp k1 e1 del: of_nat_diff)
    next
      case F2: False
      then have k1: "k = length p" using kz by simp
      have cp: "go_copy p (go_slice (fef c) (int g) (int g + int (length p))) =
          (int (length p), take (length p) (drop g (fef c)))"
        using F2 zl gz go_slice_nat [of g "g + length p" "fef c"]
          go_copy_short [of "go_slice (fef c) (int g) (int (g + length p))" p]
        by simp
      show ?thesis
        unfolding memFile_Read_def using F2 False gz zl
        by (simp add: f c fz gg Let_def cp k1 e1 del: of_nat_diff)
    qed
  qed
qed


lemma AList_delete_filter: "AList.delete k m = filter (\<lambda>(k', v). k' \<noteq> k) m"
  by (induction m) auto

lemma range_loop_delete:
  "range_loop (\<lambda>bfd gfd m. (sync_Map_Delete bfd m, True)) es m =
     filter (\<lambda>(k, v). k \<notin> fst ` set es) m"
proof (induction es arbitrary: m)
  case Nil
  then show ?case by simp
next
  case (Cons e es)
  obtain k v where e: "e = (k, v)" by (cases e)
  have "range_loop (\<lambda>bfd gfd m. (sync_Map_Delete bfd m, True)) (e # es) m =
      range_loop (\<lambda>bfd gfd m. (sync_Map_Delete bfd m, True)) es (sync_Map_Delete k m)"
    by (simp add: e)
  also have "\<dots> = filter (\<lambda>(k', v). k' \<notin> fst ` set es) (sync_Map_Delete k m)"
    by (rule Cons.IH)
  also have "\<dots> = filter (\<lambda>(k', v). k' \<notin> fst ` set (e # es)) m"
    unfolding sync_Map_Delete_def AList_delete_filter filter_filter
    by (rule filter_cong) (auto simp: e)
  finally show ?case .
qed

lemma length_hex_EncodeToString: "length (hex_EncodeToString bs) = 2 * length bs"
  by (induction bs) (simp_all add: hex_EncodeToString_def)

lemma length_rand_Read: "length (fst (rand_Read r b)) = length b"
  by (simp add: rand_Read_def go_copy_def Let_def min_def)


lemma file_at_update:
  "file_at s h = Some f \<Longrightarrow> file_at (s\<lparr>files := (files s)[h := f']\<rparr>) h = Some f'"
  by (simp add: file_at_def split: if_splits)

lemma cell_at_files_update: "cell_at (s\<lparr>files := fs\<rparr>) a = cell_at s a"
  by (simp add: cell_at_def)

lemma files_update_same:
  assumes "file_at s h = Some f"
  shows "s\<lparr>files := (files s)[h := f\<lparr>gf := gf f\<rparr>]\<rparr> = s"
proof -
  have "files s ! h = f" using assms by (simp add: file_at_def split: if_splits)
  then have "(files s)[h := f\<lparr>gf := gf f\<rparr>] = (files s)[h := files s ! h]" by simp
  also have "\<dots> = files s" by (rule list_update_id)
  finally show ?thesis by simp
qed

lemma go_slice_split:
  assumes "g + k \<le> z" "z \<le> length xs"
  shows "take k (drop g xs) @ go_slice xs (int g + int k) (int z) = go_slice xs (int g) (int z)"
proof -
  have "take ((z - g - k) + k) (drop g xs) = take k (drop g xs) @ take (z - g - k) (drop k (drop g xs))"
    by (simp add: take_add add.commute)
  moreover have "(z - g - k) + k = z - g" using assms by simp
  moreover have "go_slice xs (int g + int k) (int z) = take (z - g - k) (drop k (drop g xs))"
    using assms by (simp add: go_slice_def nat_add_distrib add.commute)
  ultimately show ?thesis by (simp add: go_slice_def)
qed

lemma read_until_EOF_reads:
  assumes k: "0 < k"
  shows "file_at s h = Some f \<Longrightarrow> cell_at s (df f) = Some c \<Longrightarrow> 0 \<le> gf f \<Longrightarrow>
     gf f \<le> feg c \<Longrightarrow> feg c \<le> int (length (fef c)) \<Longrightarrow>
     read_until_EOF k h s acc =
       Some (Inr (acc @ go_slice (fef c) (gf f) (feg c), None,
                  s\<lparr>files := (files s)[h := f\<lparr>gf := feg c\<rparr>]\<rparr>))"
proof (induction "nat (feg c - gf f)" arbitrary: s f acc rule: less_induct)
  case less
  note f = \<open>file_at s h = Some f\<close> and c = \<open>cell_at s (df f) = Some c\<close>
  show ?case
  proof (cases "gf f = feg c")
    case True
    have rd: "memFile_Read h (replicate k 0) s = Inr ((0, Some io_EOF), replicate k 0, s)"
      using Read_eof [OF f c] less.prems True by simp
    have "go_slice (fef c) (feg c) (feg c) = []" by (simp add: go_slice_def)
    moreover have "s\<lparr>files := (files s)[h := f\<lparr>gf := feg c\<rparr>]\<rparr> = s"
      using files_update_same [OF f] True by simp
    ultimately show ?thesis
      by (subst read_until_EOF.simps) (simp add: rd True)
  next
    case False
    then have lt: "gf f < feg c" using less.prems by simp
    define g where "g = nat (gf f)"
    define z where "z = nat (feg c)"
    define n where "n = min k (z - g)"
    have gg: "gf f = int g" and zz: "feg c = int z" and gz: "g < z" and zl: "z \<le> length (fef c)"
      using less.prems lt by (simp_all add: g_def z_def)
    have n0: "0 < n" and ngz: "g + n \<le> z" using k gz by (simp_all add: n_def)
    have nk: "n = min (length (replicate k (0::byte))) (nat (feg c - gf f))"
      by (simp add: n_def gg zz nat_diff_distrib' del: of_nat_diff)
    let ?f1 = "f\<lparr>gf := gf f + int n\<rparr>"
    let ?s1 = "s\<lparr>files := (files s)[h := ?f1]\<rparr>"
    let ?buf = "take n (drop (nat (gf f)) (fef c)) @ drop n (replicate k (0::byte))"
    have rd: "memFile_Read h (replicate k 0) s = Inr ((int n, None), ?buf, ?s1)"
      using Read_copy [OF f c _ lt _ nk] less.prems by simp
    have tk: "take (nat (int n)) ?buf = take n (drop g (fef c))"
      using ngz zl by (simp add: g_def [symmetric])
    have f1: "file_at ?s1 h = Some ?f1" by (rule file_at_update [OF f])
    have c1: "cell_at ?s1 (df ?f1) = Some c" using c by (simp add: cell_at_files_update)
    have dec: "nat (feg c - gf ?f1) < nat (feg c - gf f)" using n0 lt by simp
    have ih: "read_until_EOF k h ?s1 (acc @ take n (drop g (fef c))) =
        Some (Inr ((acc @ take n (drop g (fef c))) @ go_slice (fef c) (gf ?f1) (feg c), None,
                   ?s1\<lparr>files := (files ?s1)[h := ?f1\<lparr>gf := feg c\<rparr>]\<rparr>))"
      using less.hyps [OF dec f1 c1] less.prems ngz by (simp add: gg zz)
    have sl: "take n (drop g (fef c)) @ go_slice (fef c) (gf ?f1) (feg c) = go_slice (fef c) (gf f) (feg c)"
      using go_slice_split [OF ngz zl] by (simp add: gg zz)
    have st: "?s1\<lparr>files := (files ?s1)[h := ?f1\<lparr>gf := feg c\<rparr>]\<rparr> =
        s\<lparr>files := (files s)[h := f\<lparr>gf := feg c\<rparr>]\<rparr>"
      by simp
    show ?thesis
      apply (subst read_until_EOF.simps)
      apply (simp only: rd sum.case prod.case Let_def option.case tk)
      apply (simp only: ih st append_assoc sl)
      done
  qed
qed

subsection \<open>Allocation and the state\<close>

lemma file_at_append:
  "file_at (s\<lparr>files := files s @ [f]\<rparr>) h =
     (if h = length (files s) then Some f else file_at s h)"
  by (auto simp: file_at_def nth_append)

lemma cell_at_append:
  "cell_at (s\<lparr>cells := cells s @ [c]\<rparr>) a =
     (if a = length (cells s) then Some c else cell_at s a)"
  by (auto simp: cell_at_def nth_append)

lemma file_at_length: "file_at s (length (files s)) = None"
  by (simp add: file_at_def)

lemma cell_at_length: "cell_at s (length (cells s)) = None"
  by (simp add: cell_at_def)

lemma map_of_Store: "map_of (sync_Map_Store k v m) = (map_of m)(k \<mapsto> v)"
  by (simp add: sync_Map_Store_def update_conv')

lemma cell_at_cells_update:
  "cell_at s a = Some c \<Longrightarrow>
     cell_at (s\<lparr>cells := (cells s)[a := c']\<rparr>) b = (if b = a then Some c' else cell_at s b)"
  by (auto simp: cell_at_def split: if_splits)

lemma file_at_cells_update: "file_at (s\<lparr>cells := cs\<rparr>) h = file_at s h"
  by (simp add: file_at_def)

lemma Write_result:
  assumes "file_at s da = Some f" and "cell_at s (df f) = Some c"
  shows "memFile_Write da p s =
     Inr ((int (length p), None),
          s\<lparr>cells := (cells s)[df f := c\<lparr>fef := fef c @ p, feg := feg c + int (length p)\<rparr>]\<rparr>)"
  using assms by (simp add: memFile_Write_def)

lemma efc_ok:
  "snd r = None \<Longrightarrow> efc r n = (hex_EncodeToString (fst (rand_Read r (replicate n 0))), None)"
  by (simp add: efc_def Let_def rand_Read_def split: prod.splits)

lemma efc_failed: "efc (bs, Some e) n = ('''', Some e)"
  by (simp add: efc_def Let_def rand_Read_def split: prod.splits)

lemma TempFile_result:
  "memStorage_TempFile r dir pattern s =
     ((Some (length (files s)), None),
      s\<lparr>cells := cells s @ [\<lparr>dfb = dir @ ''/'' @ pattern @ fst (efc r 6), fef = [], feg = 0\<rparr>],
        files := files s @ [\<lparr>df = length (cells s), gf = 0\<rparr>],
        ac := sync_Map_Store (dir @ ''/'' @ pattern @ fst (efc r 6)) (length (cells s)) (ac s)\<rparr>)"
  by (simp add: memStorage_TempFile_def eb_def Let_def split: prod.splits)

lemma TempDir_result:
  "memStorage_TempDir r pattern s = ((pattern @ fst (efc r 6), None), s)"
  by (simp add: memStorage_TempDir_def eb_def split: prod.splits)

lemma eb_drops_error: "eb (bs, Some e) eg = eg"
  by (simp add: eb_def efc_failed)

lemma Name_result:
  "file_at s a = Some f \<Longrightarrow> cell_at s (df f) = Some c \<Longrightarrow> memFile_Name a s = Inr (dfb c, s)"
  by (simp add: memFile_Name_def)

lemma Open_result:
  "map_of (ac s) path = Some a \<Longrightarrow>
     memStorage_Open path s =
       ((Some (length (files s)), None), s\<lparr>files := files s @ [\<lparr>df = a, gf = 0\<rparr>]\<rparr>)"
  by (simp add: memStorage_Open_def sync_Map_Load_def)

lemma Read_frame:
  assumes f: "file_at s h = Some f" and c: "cell_at s (df f) = Some c"
  shows "memFile_Read h p s = Inl slice_bounds_out_of_range \<or>
     (\<exists>n err p' g. memFile_Read h p s =
        Inr ((n, err), p', s\<lparr>files := (files s)[h := f\<lparr>gf := g\<rparr>]\<rparr>))"
proof (cases "memFile_Read h p s")
  case (Inl pn)
  then have "pn = slice_bounds_out_of_range"
    by (simp add: memFile_Read_def f c Let_def split: if_splits prod.splits)
  with Inl show ?thesis by simp
next
  case (Inr r)
  show ?thesis
  proof (cases "gf f \<ge> feg c")
    case True
    then have "memFile_Read h p s = Inr ((0, Some io_EOF), p, s)"
      using Inr by (simp add: memFile_Read_def f c Let_def split: if_splits)
    then have "memFile_Read h p s =
        Inr ((0, Some io_EOF), p, s\<lparr>files := (files s)[h := f\<lparr>gf := gf f\<rparr>]\<rparr>)"
      by (simp only: files_update_same [OF f])
    then show ?thesis by blast
  next
    case False
    then have "\<exists>n p' g. r = ((n, None), p', s\<lparr>files := (files s)[h := f\<lparr>gf := g\<rparr>]\<rparr>)"
      using Inr by (simp add: memFile_Read_def f c Let_def split: if_splits prod.splits) blast+
    with Inr show ?thesis by blast
  qed
qed

lemma go_slice_all: "go_slice xs 0 (int (length xs)) = xs"
  by (simp add: go_slice_def)

lemma sync_Map_Range_delete_all:
  "sync_Map_Range (\<lambda>bfd gfd m. (sync_Map_Delete bfd m, True)) m = []"
proof -
  have "filter (\<lambda>(k, v). k \<notin> fst ` set m) m = []"
    by (force simp: filter_empty_conv)
  then show ?thesis by (simp add: sync_Map_Range_def range_loop_delete)
qed

subsection \<open>The invariant holds in every reachable state\<close>

lemma state_ok_file:
  assumes "state_ok s" and "file_at s h = Some f"
  shows "\<exists>c. cell_at s (df f) = Some c \<and> 0 \<le> gf f \<and> gf f \<le> feg c \<and>
     0 \<le> feg c \<and> feg c \<le> int (length (fef c))"
  using assms unfolding state_ok_def by blast

lemma state_ok_SetAsStorage: "state_ok SetAsStorage"
  by (simp add: state_ok_def SetAsStorage_def cell_at_def file_at_def)

lemma state_ok_RemoveAll:
  assumes "state_ok s"
  shows "state_ok (snd (memStorage_RemoveAll dir s))"
proof -
  have c: "cell_at (s\<lparr>ac := []\<rparr>) a = cell_at s a" for a by (simp add: cell_at_def)
  have f: "file_at (s\<lparr>ac := []\<rparr>) h = file_at s h" for h by (simp add: file_at_def)
  show ?thesis
    using assms
    by (simp add: memStorage_RemoveAll_def sync_Map_Range_delete_all state_ok_def c f)
qed

lemma state_ok_TempDir: "state_ok s \<Longrightarrow> state_ok (snd (memStorage_TempDir r pattern s))"
  by (simp add: memStorage_TempDir_def)

lemma state_ok_Close: "state_ok s \<Longrightarrow> state_ok (snd (memFile_Close h s))"
  by (simp add: memFile_Close_def)

lemma state_ok_Name: "memFile_Name h s = Inr (n, s') \<Longrightarrow> state_ok s \<Longrightarrow> state_ok s'"
  by (auto simp: memFile_Name_def split: option.splits)

lemma state_ok_alloc_cell:
  assumes ok: "state_ok s" and c: "0 \<le> feg c" "feg c \<le> int (length (fef c))"
  shows "state_ok (s\<lparr>cells := cells s @ [c], ac := sync_Map_Store k (length (cells s)) (ac s)\<rparr>)"
proof -
  let ?s' = "s\<lparr>cells := cells s @ [c], ac := sync_Map_Store k (length (cells s)) (ac s)\<rparr>"
  have ca: "cell_at ?s' a = (if a = length (cells s) then Some c else cell_at s a)" for a
    by (auto simp: cell_at_def nth_append)
  have fa: "file_at ?s' h = file_at s h" for h by (simp add: file_at_def)
  have old: "cell_at s a = Some c' \<Longrightarrow> a \<noteq> length (cells s)" for a c'
    by (auto simp: cell_at_def)
  show ?thesis
    unfolding state_ok_def
  proof (intro conjI allI impI)
    fix a c' assume "cell_at ?s' a = Some c'"
    then show "0 \<le> feg c'" and "feg c' \<le> int (length (fef c'))"
      using ok c by (auto simp: ca state_ok_def split: if_splits)
  next
    fix h f assume "file_at ?s' h = Some f"
    then obtain c' where "cell_at s (df f) = Some c'" "0 \<le> gf f" "gf f \<le> feg c'"
      using ok unfolding state_ok_def fa by blast
    then show "\<exists>c. cell_at ?s' (df f) = Some c \<and> 0 \<le> gf f \<and> gf f \<le> feg c"
      using old [of "df f" c'] by (simp add: ca)
  next
    fix k' a assume "map_of (ac ?s') k' = Some a"
    then have "a = length (cells s) \<or> map_of (ac s) k' = Some a"
      by (simp add: map_of_Store split: if_splits)
    then show "cell_at ?s' a \<noteq> None"
      using ok unfolding state_ok_def by (auto simp: ca)
  qed
qed

lemma state_ok_alloc_file:
  assumes ok: "state_ok s" and c: "cell_at s a = Some c"
  shows "state_ok (s\<lparr>files := files s @ [\<lparr>df = a, gf = 0\<rparr>]\<rparr>)"
proof -
  let ?s' = "s\<lparr>files := files s @ [\<lparr>df = a, gf = 0\<rparr>]\<rparr>"
  have c0: "0 \<le> feg c" using ok c unfolding state_ok_def by blast
  show ?thesis
    unfolding state_ok_def
  proof (intro conjI allI impI)
    fix b c' assume "cell_at ?s' b = Some c'"
    then show "0 \<le> feg c'" and "feg c' \<le> int (length (fef c'))"
      using ok by (auto simp: cell_at_files_update state_ok_def)
  next
    fix h f assume "file_at ?s' h = Some f"
    then have "f = \<lparr>df = a, gf = 0\<rparr> \<or> file_at s h = Some f"
      by (simp add: file_at_append split: if_splits)
    then show "\<exists>c. cell_at ?s' (df f) = Some c \<and> 0 \<le> gf f \<and> gf f \<le> feg c"
      using ok c c0 unfolding state_ok_def cell_at_files_update by auto
  next
    fix k' b assume "map_of (ac ?s') k' = Some b"
    then show "cell_at ?s' b \<noteq> None"
      using ok unfolding state_ok_def cell_at_files_update by auto
  qed
qed

lemma state_ok_Add: "state_ok s \<Longrightarrow> state_ok (snd (memStorage_Add fs path s))"
  using state_ok_alloc_cell [of s "\<lparr>dfb = path, fef = ge, feg = 0\<rparr>" path for ge]
  by (simp add: memStorage_Add_def split: sum.splits)

lemma state_ok_Open: "state_ok s \<Longrightarrow> state_ok (snd (memStorage_Open path s))"
proof (cases "map_of (ac s) path")
  case None
  assume "state_ok s"
  then show ?thesis using None by (simp add: memStorage_Open_def sync_Map_Load_def)
next
  case (Some a)
  assume ok: "state_ok s"
  then obtain c where "cell_at s a = Some c" using Some unfolding state_ok_def by blast
  from state_ok_alloc_file [OF ok this] show ?thesis by (simp add: Open_result [OF Some])
qed

lemma state_ok_TempFile:
  assumes ok: "state_ok s"
  shows "state_ok (snd (memStorage_TempFile r dir pattern s))"
proof -
  let ?n = "dir @ ''/'' @ pattern @ fst (efc r 6)"
  let ?c = "\<lparr>dfb = ?n, fef = [], feg = 0\<rparr>"
  let ?s1 = "s\<lparr>cells := cells s @ [?c], ac := sync_Map_Store ?n (length (cells s)) (ac s)\<rparr>"
  have ok1: "state_ok ?s1" by (rule state_ok_alloc_cell [OF ok]) simp_all
  have c1: "cell_at ?s1 (length (cells s)) = Some ?c" by (simp add: cell_at_def)
  have "snd (memStorage_TempFile r dir pattern s) =
      ?s1\<lparr>files := files ?s1 @ [\<lparr>df = length (cells s), gf = 0\<rparr>]\<rparr>"
    by (simp add: TempFile_result)
  then show ?thesis using state_ok_alloc_file [OF ok1 c1] by simp
qed

lemma state_ok_Write:
  assumes ok: "state_ok s" and w: "memFile_Write da p s = Inr (r, s')"
  shows "state_ok s'"
proof -
  obtain f where f: "file_at s da = Some f"
    using w by (auto simp: memFile_Write_def split: option.splits)
  obtain c where c: "cell_at s (df f) = Some c" and c0: "0 \<le> feg c" "feg c \<le> int (length (fef c))"
    using state_ok_file [OF ok f] by blast
  let ?c' = "c\<lparr>fef := fef c @ p, feg := feg c + int (length p)\<rparr>"
  have s': "s' = s\<lparr>cells := (cells s)[df f := ?c']\<rparr>"
    using Write_result [OF f c, of p] w by simp
  have ca: "cell_at s' b = (if b = df f then Some ?c' else cell_at s b)" for b
    unfolding s' by (rule cell_at_cells_update [OF c])
  have fa: "file_at s' h = file_at s h" for h unfolding s' by (rule file_at_cells_update)
  have ac: "ac s' = ac s" by (simp add: s')
  show ?thesis
    unfolding state_ok_def
  proof (intro conjI allI impI)
    fix b c'' assume "cell_at s' b = Some c''"
    then show "0 \<le> feg c''" and "feg c'' \<le> int (length (fef c''))"
      using ok c0 by (auto simp: ca state_ok_def split: if_splits)
  next
    fix h g assume "file_at s' h = Some g"
    then obtain d where d: "cell_at s (df g) = Some d" "0 \<le> gf g" "gf g \<le> feg d"
      using ok unfolding state_ok_def fa by blast
    show "\<exists>c. cell_at s' (df g) = Some c \<and> 0 \<le> gf g \<and> gf g \<le> feg c"
    proof (cases "df g = df f")
      case True
      then have "d = c" using d c by simp
      then show ?thesis using d True by (simp add: ca)
    next
      case False
      then show ?thesis using d by (simp add: ca)
    qed
  next
    fix k b assume "map_of (ac s') k = Some b"
    then have "cell_at s b \<noteq> None" using ok unfolding state_ok_def ac by blast
    then show "cell_at s' b \<noteq> None" by (simp add: ca)
  qed
qed

lemma state_ok_Read:
  assumes ok: "state_ok s" and r: "memFile_Read h p s = Inr (res, p', s')"
  shows "state_ok s'"
proof -
  obtain f where f: "file_at s h = Some f"
    using r by (auto simp: memFile_Read_def split: option.splits)
  obtain c where c: "cell_at s (df f) = Some c" and b: "0 \<le> gf f" "gf f \<le> feg c"
      "0 \<le> feg c" "feg c \<le> int (length (fef c))"
    using state_ok_file [OF ok f] by blast
  have "\<exists>g. 0 \<le> g \<and> g \<le> feg c \<and> s' = s\<lparr>files := (files s)[h := f\<lparr>gf := g\<rparr>]\<rparr>"
  proof (cases "gf f = feg c")
    case True
    then have "s' = s" using Read_eof [OF f c b(3), of p] r by simp
    then show ?thesis using files_update_same [OF f] b by (intro exI [of _ "gf f"]) simp
  next
    case False
    then have lt: "gf f < feg c" using b by simp
    let ?n = "min (length p) (nat (feg c - gf f))"
    have "s' = s\<lparr>files := (files s)[h := f\<lparr>gf := gf f + int ?n\<rparr>]\<rparr>"
      using Read_copy [OF f c b(1) lt b(4) refl, of p] r by simp
    moreover have "0 \<le> gf f + int ?n" "gf f + int ?n \<le> feg c" using b lt by simp_all
    ultimately show ?thesis by blast
  qed
  then obtain g where g: "0 \<le> g" "g \<le> feg c" and s': "s' = s\<lparr>files := (files s)[h := f\<lparr>gf := g\<rparr>]\<rparr>"
    by blast
  have ca: "cell_at s' a = cell_at s a" for a unfolding s' by (rule cell_at_files_update)
  have fa: "file_at s' h' = (if h' = h then Some (f\<lparr>gf := g\<rparr>) else file_at s h')" for h'
    using f unfolding s' by (auto simp: file_at_def split: if_splits)
  have ac: "ac s' = ac s" by (simp add: s')
  show ?thesis
    unfolding state_ok_def ca ac
  proof (intro conjI allI impI)
    fix a c' assume "cell_at s a = Some c'"
    then show "0 \<le> feg c'" and "feg c' \<le> int (length (fef c'))"
      using ok unfolding state_ok_def by blast+
  next
    fix h' f' assume "file_at s' h' = Some f'"
    then have "f' = f\<lparr>gf := g\<rparr> \<or> file_at s h' = Some f'" by (simp add: fa split: if_splits)
    then show "\<exists>c. cell_at s (df f') = Some c \<and> 0 \<le> gf f' \<and> gf f' \<le> feg c"
      using ok c g unfolding state_ok_def by auto
  next
    fix k a assume "map_of (ac s) k = Some a"
    then show "cell_at s a \<noteq> None" using ok unfolding state_ok_def by blast
  qed
qed

lemma reachable_state_ok: "reachable s \<Longrightarrow> state_ok s"
proof (induction rule: reachable.induct)
  case start
  show ?case by (rule state_ok_SetAsStorage)
next
  case (by_Write s h p res s')
  then show ?case by (blast intro: state_ok_Write)
next
  case (by_Read s h p res p' s')
  then show ?case by (blast intro: state_ok_Read)
next
  case (by_Name s h n s')
  then show ?case by (blast intro: state_ok_Name)
qed (simp_all add: state_ok_Add state_ok_Open state_ok_TempFile state_ok_TempDir
    state_ok_RemoveAll state_ok_Close)

lemma reachable_Read_returns:
  assumes "reachable s" and "file_at s h = Some f"
  shows "\<exists>res p' s'. memFile_Read h p s = Inr (res, p', s')"
proof -
  obtain c where c: "cell_at s (df f) = Some c" and b: "0 \<le> gf f" "gf f \<le> feg c"
      "0 \<le> feg c" "feg c \<le> int (length (fef c))"
    using state_ok_file [OF reachable_state_ok [OF assms(1)] assms(2)] by blast
  show ?thesis
  proof (cases "gf f = feg c")
    case True
    then show ?thesis using Read_eof [OF assms(2) c b(3), of p] by simp
  next
    case False
    then have "gf f < feg c" using b by simp
    from Read_copy [OF assms(2) c b(1) this b(4) refl, of p] show ?thesis by blast
  qed
qed

subsection \<open>The size of a cell on the paths that keep it\<close>

text \<open>
  \<^verbatim>\<open>TempFile\<close> makes a cell whose size is the length of its (empty) content, and
  \<^verbatim>\<open>Write\<close> keeps the size equal to the length of the content and never lowers it.
\<close>

lemma TempFile_size_is_length:
  "memStorage_TempFile r dir pattern s = ((Some h, None), s') \<Longrightarrow>
     \<exists>f c. file_at s' h = Some f \<and> cell_at s' (df f) = Some c \<and>
       fef c = [] \<and> feg c = int (length (fef c))"
  by (auto simp: TempFile_result file_at_def cell_at_def)

lemma Write_size_is_length:
  assumes "file_at s da = Some f" and "cell_at s (df f) = Some c"
    and "feg c = int (length (fef c))"
    and "memFile_Write da p s = Inr (r, s')"
  shows "\<exists>c'. cell_at s' (df f) = Some c' \<and> feg c' = int (length (fef c')) \<and> feg c \<le> feg c'"
proof -
  have "s' = s\<lparr>cells := (cells s)[df f := c\<lparr>fef := fef c @ p, feg := feg c + int (length p)\<rparr>]\<rparr>"
    using Write_result [OF assms(1,2), of p] assms(4) by simp
  then show ?thesis
    using cell_at_cells_update [OF assms(2), of "c\<lparr>fef := fef c @ p, feg := feg c + int (length p)\<rparr>" "df f"]
      assms(3) by simp
qed

section \<open>The claims\<close>

subsection \<open>RemoveAll\<close>

text \<open>
  C7. For every state of the storage and every argument \<open>dirPrefix\<close>,
  \<^verbatim>\<open>RemoveAll(dirPrefix)\<close> deletes every entry of the map, whether or not its key matches
  the argument, so that the map is left with no entry at all, and it returns no error.
  The allocated cells and file objects are not touched.
\<close>

theorem RemoveAll_full_clear:
  "memStorage_RemoveAll dirPrefix s = (None, s\<lparr>ac := []\<rparr>)"
  by (simp add: memStorage_RemoveAll_def sync_Map_Range_delete_all)

text \<open>
  The example of the specification: with the entries \<open>dir/x\<close> and \<open>other/y\<close>,
  \<^verbatim>\<open>RemoveAll("dir")\<close> leaves no entry.
\<close>

theorem RemoveAll_full_clear_example:
  "(let fs = (\<lambda>path. Inr [1, 2]);
        s1 = snd (memStorage_Add fs ''dir/x'' SetAsStorage);
        s2 = snd (memStorage_Add fs ''other/y'' s1)
    in map fst (ac s2) = [''dir/x'', ''other/y''] \<and>
       fst (memStorage_RemoveAll ''dir'' s2) = None \<and>
       ac (snd (memStorage_RemoveAll ''dir'' s2)) = [])"
  using RemoveAll_full_clear [of "''dir''"]
  by (simp add: memStorage_Add_def ioutil_ReadFile_def SetAsStorage_def sync_Map_Store_def Let_def)

subsection \<open>Read\<close>

text \<open>
  C3. Take a file object \<open>h\<close> with offset \<open>gf f\<close> on a cell \<open>c\<close> of size \<open>feg c\<close>, where
  the offset and the size are not negative and the size does not exceed the length of
  the content, as in every reachable state (\<open>reachable_state_ok\<close>, \<open>state_ok_file\<close>), and
  let \<open>remaining = feg c - gf f\<close>.
  If \<open>remaining \<le> 0\<close>, \<^verbatim>\<open>Read\<close> returns 0 and \<^verbatim>\<open>io.EOF\<close>, and neither the buffer nor
  the state changes. Otherwise it copies \<open>n = min (len p) remaining\<close> bytes of the content,
  from the offset on, to the front of the buffer, adds \<open>n\<close> to the offset, and returns
  \<open>n\<close> with no error. With an empty buffer and \<open>remaining > 0\<close> it returns 0 with no
  error and no end-of-stream signal.
\<close>

theorem Read_contract:
  assumes "file_at s h = Some f" and "cell_at s (df f) = Some c"
    and "0 \<le> gf f" and "0 \<le> feg c" and "feg c \<le> int (length (fef c))"
  shows "(feg c - gf f \<le> 0 \<longrightarrow> memFile_Read h p s = Inr ((0, Some io_EOF), p, s)) \<and>
     (0 < feg c - gf f \<longrightarrow>
        (let n = min (length p) (nat (feg c - gf f)) in
         memFile_Read h p s =
           Inr ((int n, None), take n (drop (nat (gf f)) (fef c)) @ drop n p,
                s\<lparr>files := (files s)[h := f\<lparr>gf := gf f + int n\<rparr>]\<rparr>))) \<and>
     (0 < feg c - gf f \<longrightarrow> memFile_Read h [] s = Inr ((0, None), [], s))"
proof (intro conjI impI)
  assume "feg c - gf f \<le> 0"
  then show "memFile_Read h p s = Inr ((0, Some io_EOF), p, s)"
    using Read_eof [OF assms(1,2,4)] by simp
next
  assume "0 < feg c - gf f"
  then have lt: "gf f < feg c" by simp
  show "let n = min (length p) (nat (feg c - gf f)) in
         memFile_Read h p s =
           Inr ((int n, None), take n (drop (nat (gf f)) (fef c)) @ drop n p,
                s\<lparr>files := (files s)[h := f\<lparr>gf := gf f + int n\<rparr>]\<rparr>)"
    unfolding Let_def by (rule Read_copy [OF assms(1,2,3) lt assms(5) refl])
next
  assume "0 < feg c - gf f"
  then have lt: "gf f < feg c" by simp
  have "memFile_Read h [] s = Inr ((int 0, None), take 0 (drop (nat (gf f)) (fef c)) @ drop 0 [],
      s\<lparr>files := (files s)[h := f\<lparr>gf := gf f + int 0\<rparr>]\<rparr>)"
    by (rule Read_copy [OF assms(1,2,3) lt assms(5)]) simp
  then show "memFile_Read h [] s = Inr ((0, None), [], s)"
    using files_update_same [OF assms(1)] by simp
qed

theorem Read_contract_witness:
  "(let c = \<lparr>dfb = ''f'', fef = [1, 2, 3], feg = 3\<rparr>;
        s = \<lparr>cells = [c], files = [\<lparr>df = 0, gf = 1\<rparr>, \<lparr>df = 0, gf = 3\<rparr>], ac = [(''f'', 0)]\<rparr>
    in file_at s 0 = Some \<lparr>df = 0, gf = 1\<rparr> \<and> file_at s 1 = Some \<lparr>df = 0, gf = 3\<rparr> \<and>
       cell_at s 0 = Some c \<and> feg c \<le> int (length (fef c)) \<and>
       memFile_Read 0 [0, 0, 0, 0, 0] s =
         Inr ((2, None), [2, 3, 0, 0, 0],
              s\<lparr>files := [\<lparr>df = 0, gf = 3\<rparr>, \<lparr>df = 0, gf = 3\<rparr>]\<rparr>) \<and>
       memFile_Read 0 [] s = Inr ((0, None), [], s) \<and>
       memFile_Read 1 [0, 0] s = Inr ((0, Some io_EOF), [0, 0], s))"
  using Read_contract [of "\<lparr>cells = [\<lparr>dfb = ''f'', fef = [1, 2, 3], feg = 3\<rparr>],
            files = [\<lparr>df = 0, gf = 1\<rparr>, \<lparr>df = 0, gf = 3\<rparr>], ac = [(''f'', 0)]\<rparr>"
          0 "\<lparr>df = 0, gf = 1\<rparr>" "\<lparr>dfb = ''f'', fef = [1, 2, 3], feg = 3\<rparr>" "[0, 0, 0, 0, 0]"]
    Read_contract [of "\<lparr>cells = [\<lparr>dfb = ''f'', fef = [1, 2, 3], feg = 3\<rparr>],
            files = [\<lparr>df = 0, gf = 1\<rparr>, \<lparr>df = 0, gf = 3\<rparr>], ac = [(''f'', 0)]\<rparr>"
          1 "\<lparr>df = 0, gf = 3\<rparr>" "\<lparr>dfb = ''f'', fef = [1, 2, 3], feg = 3\<rparr>" "[0, 0]"]
  by (simp add: file_at_def cell_at_def Let_def)

subsection \<open>Open\<close>

text \<open>
  C5. For every state and every path: when the path is not a key of the map,
  \<^verbatim>\<open>Open(path)\<close> returns no file object and the error
  \<^verbatim>\<open>errors.New("Cannot open the file " + path)\<close>, which carries the path, and the state
  is unchanged; when the path is a key, \<^verbatim>\<open>Open(path)\<close> returns, with no error, a newly
  allocated file object with offset 0 that points to the cell stored under the path.
\<close>

theorem Open_contract:
  "(map_of (ac s) path = None \<longrightarrow>
      memStorage_Open path s =
        ((None, Some (errors_New (''Cannot open the file '' @ path))), s)) \<and>
   (\<forall>a. map_of (ac s) path = Some a \<longrightarrow>
      (\<exists>h s'. memStorage_Open path s = ((Some h, None), s') \<and>
         file_at s h = None \<and> file_at s' h = Some \<lparr>df = a, gf = 0\<rparr> \<and>
         (\<forall>h'. h' \<noteq> h \<longrightarrow> file_at s' h' = file_at s h') \<and>
         cells s' = cells s \<and> ac s' = ac s))"
proof (intro conjI allI impI)
  assume "map_of (ac s) path = None"
  then show "memStorage_Open path s =
      ((None, Some (errors_New (''Cannot open the file '' @ path))), s)"
    by (simp add: memStorage_Open_def sync_Map_Load_def)
next
  fix a assume a: "map_of (ac s) path = Some a"
  let ?s' = "s\<lparr>files := files s @ [\<lparr>df = a, gf = 0\<rparr>]\<rparr>"
  have "memStorage_Open path s = ((Some (length (files s)), None), ?s')"
    by (simp add: memStorage_Open_def sync_Map_Load_def a)
  moreover have "file_at s (length (files s)) = None" by (rule file_at_length)
  moreover have "file_at ?s' (length (files s)) = Some \<lparr>df = a, gf = 0\<rparr>"
    by (simp add: file_at_append)
  moreover have "\<forall>h'. h' \<noteq> length (files s) \<longrightarrow> file_at ?s' h' = file_at s h'"
    by (simp add: file_at_append)
  ultimately show "\<exists>h s'. memStorage_Open path s = ((Some h, None), s') \<and>
         file_at s h = None \<and> file_at s' h = Some \<lparr>df = a, gf = 0\<rparr> \<and>
         (\<forall>h'. h' \<noteq> h \<longrightarrow> file_at s' h' = file_at s h') \<and>
         cells s' = cells s \<and> ac s' = ac s"
    by (intro exI [of _ "length (files s)"] exI [of _ ?s']) simp
qed

theorem Open_contract_witness:
  "map_of (ac SetAsStorage) ''missing'' = None \<and>
   memStorage_Open ''missing'' SetAsStorage =
     ((None, Some (errors_New ''Cannot open the file missing'')), SetAsStorage) \<and>
   (let s = \<lparr>cells = [\<lparr>dfb = ''f'', fef = [7], feg = 1\<rparr>], files = [], ac = [(''f'', 0)]\<rparr>
    in map_of (ac s) ''f'' = Some 0 \<and>
       memStorage_Open ''f'' s = ((Some 0, None), s\<lparr>files := [\<lparr>df = 0, gf = 0\<rparr>]\<rparr>))"
proof -
  have m: "map_of (ac SetAsStorage) ''missing'' = None" by (simp add: SetAsStorage_def)
  have o: "memStorage_Open ''missing'' SetAsStorage =
     ((None, Some (errors_New (''Cannot open the file '' @ ''missing''))), SetAsStorage)"
    using Open_contract [of SetAsStorage "''missing''"] m by blast
  show ?thesis using m o by (simp add: memStorage_Open_def sync_Map_Load_def)
qed

subsection \<open>Add\<close>

text \<open>
  C6. For every state and every path: when reading the file fails, \<^verbatim>\<open>Add(path)\<close>
  returns the error of \<^verbatim>\<open>ioutil.ReadFile\<close> as it is and the state is unchanged (no entry
  is inserted); when the read succeeds, \<^verbatim>\<open>Add\<close> returns no error and the map holds,
  under the key \<open>path\<close> itself, a newly allocated cell with that name and the bytes read,
  whatever was stored under the key before; the other keys and the other cells are
  unchanged. The new cell's size field is 0, the zero value the composite literal
  leaves.
\<close>

theorem Add_contract:
  "(\<forall>e. fs path = Inl e \<longrightarrow> memStorage_Add fs path s = (Some e, s)) \<and>
   (\<forall>ge. fs path = Inr ge \<longrightarrow>
      (\<exists>a s'. memStorage_Add fs path s = (None, s') \<and>
         cell_at s a = None \<and> cell_at s' a = Some \<lparr>dfb = path, fef = ge, feg = 0\<rparr> \<and>
         map_of (ac s') path = Some a \<and>
         (\<forall>k. k \<noteq> path \<longrightarrow> map_of (ac s') k = map_of (ac s) k) \<and>
         (\<forall>b. b \<noteq> a \<longrightarrow> cell_at s' b = cell_at s b) \<and>
         files s' = files s))"
proof (intro conjI allI impI)
  fix e assume "fs path = Inl e"
  then show "memStorage_Add fs path s = (Some e, s)"
    by (simp add: memStorage_Add_def ioutil_ReadFile_def)
next
  fix ge assume ge: "fs path = Inr ge"
  let ?a = "length (cells s)"
  let ?s' = "s\<lparr>cells := cells s @ [\<lparr>dfb = path, fef = ge, feg = 0\<rparr>],
               ac := sync_Map_Store path ?a (ac s)\<rparr>"
  have "memStorage_Add fs path s = (None, ?s')"
    by (simp add: memStorage_Add_def ioutil_ReadFile_def ge)
  moreover have "cell_at s ?a = None" by (rule cell_at_length)
  moreover have "cell_at ?s' b = (if b = ?a then Some \<lparr>dfb = path, fef = ge, feg = 0\<rparr> else cell_at s b)" for b
    by (auto simp: cell_at_def nth_append)
  moreover have "map_of (ac ?s') = (map_of (ac s))(path \<mapsto> ?a)"
    by (simp add: map_of_Store)
  ultimately show "\<exists>a s'. memStorage_Add fs path s = (None, s') \<and>
         cell_at s a = None \<and> cell_at s' a = Some \<lparr>dfb = path, fef = ge, feg = 0\<rparr> \<and>
         map_of (ac s') path = Some a \<and>
         (\<forall>k. k \<noteq> path \<longrightarrow> map_of (ac s') k = map_of (ac s) k) \<and>
         (\<forall>b. b \<noteq> a \<longrightarrow> cell_at s' b = cell_at s b) \<and>
         files s' = files s"
    by (intro exI [of _ ?a] exI [of _ ?s']) simp
qed

theorem Add_contract_witness:
  "(let fs = (\<lambda>p. if p = ''ok'' then Inr [1, 2] else Inl (foreign_error ''no such file''));
        s = \<lparr>cells = [\<lparr>dfb = ''ok'', fef = [9], feg = 0\<rparr>], files = [], ac = [(''ok'', 0)]\<rparr>
    in fs ''gone'' = Inl (foreign_error ''no such file'') \<and>
       memStorage_Add fs ''gone'' s = (Some (foreign_error ''no such file''), s) \<and>
       fs ''ok'' = Inr [1, 2] \<and>
       memStorage_Add fs ''ok'' s =
         (None, \<lparr>cells = [\<lparr>dfb = ''ok'', fef = [9], feg = 0\<rparr>, \<lparr>dfb = ''ok'', fef = [1, 2], feg = 0\<rparr>],
                  files = [], ac = [(''ok'', 1)]\<rparr>))"
proof -
  define fs :: filesystem where
    "fs = (\<lambda>p. if p = ''ok'' then Inr [1, 2] else Inl (foreign_error ''no such file''))"
  define s where
    "s = \<lparr>cells = [\<lparr>dfb = ''ok'', fef = [9], feg = 0\<rparr>], files = [], ac = [(''ok'', 0)]\<rparr>"
  have g: "fs ''gone'' = Inl (foreign_error ''no such file'')" by (simp add: fs_def)
  have "memStorage_Add fs ''gone'' s = (Some (foreign_error ''no such file''), s)"
    using Add_contract [of fs "''gone''" s] g by blast
  moreover have "fs ''ok'' = Inr [1, 2]" by (simp add: fs_def)
  moreover have "memStorage_Add fs ''ok'' s =
         (None, \<lparr>cells = [\<lparr>dfb = ''ok'', fef = [9], feg = 0\<rparr>, \<lparr>dfb = ''ok'', fef = [1, 2], feg = 0\<rparr>],
                  files = [], ac = [(''ok'', 1)]\<rparr>)"
    by (simp add: memStorage_Add_def ioutil_ReadFile_def fs_def s_def sync_Map_Store_def)
  ultimately show ?thesis using g by (simp add: fs_def s_def Let_def)
qed

subsection \<open>Write\<close>

text \<open>
  C4. For every file object \<open>da\<close> (with its cell allocated) and every buffer \<open>A\<close>,
  \<^verbatim>\<open>Write(A)\<close> returns \<open>(len A, nil)\<close>, appends \<open>A\<close> to the content of the cell and adds
  \<open>len A\<close> to its size; no other cell, no file object and no map entry changes. The
  offset of the file object plays no part: with any other offset \<open>g\<close> the cells after
  the call are the same. A second \<^verbatim>\<open>Write(B)\<close> on the same file object leaves the content
  followed by \<open>A\<close> and then \<open>B\<close>, and a write of the empty buffer changes nothing.
\<close>

theorem Write_append_only:
  assumes f: "file_at s da = Some f" and c: "cell_at s (df f) = Some c"
  shows "\<exists>s1 s2.
     memFile_Write da A s = Inr ((int (length A), None), s1) \<and>
     cell_at s1 (df f) = Some (c\<lparr>fef := fef c @ A, feg := feg c + int (length A)\<rparr>) \<and>
     (\<forall>b. b \<noteq> df f \<longrightarrow> cell_at s1 b = cell_at s b) \<and>
     files s1 = files s \<and> ac s1 = ac s \<and>
     (\<forall>g. \<exists>s'. memFile_Write da A (s\<lparr>files := (files s)[da := f\<lparr>gf := g\<rparr>]\<rparr>) =
                   Inr ((int (length A), None), s') \<and> cells s' = cells s1) \<and>
     memFile_Write da B s1 = Inr ((int (length B), None), s2) \<and>
     cell_at s2 (df f) =
       Some (c\<lparr>fef := fef c @ A @ B, feg := feg c + int (length A) + int (length B)\<rparr>) \<and>
     memFile_Write da [] s = Inr ((0, None), s)"
proof -
  let ?c1 = "c\<lparr>fef := fef c @ A, feg := feg c + int (length A)\<rparr>"
  let ?s1 = "s\<lparr>cells := (cells s)[df f := ?c1]\<rparr>"
  let ?c2 = "?c1\<lparr>fef := fef ?c1 @ B, feg := feg ?c1 + int (length B)\<rparr>"
  let ?s2 = "?s1\<lparr>cells := (cells ?s1)[df f := ?c2]\<rparr>"
  have w1: "memFile_Write da A s = Inr ((int (length A), None), ?s1)"
    by (rule Write_result [OF f c])
  have c1: "cell_at ?s1 b = (if b = df f then Some ?c1 else cell_at s b)" for b
    by (rule cell_at_cells_update [OF c])
  have f1: "file_at ?s1 da = Some f" using f by (simp add: file_at_cells_update)
  have c1': "cell_at ?s1 (df f) = Some ?c1" by (simp add: c1)
  have w2: "memFile_Write da B ?s1 = Inr ((int (length B), None), ?s2)"
    by (rule Write_result [OF f1 c1'])
  have c2: "cell_at ?s2 (df f) = Some ?c2"
    using cell_at_cells_update [OF c1', of ?c2 "df f"] by simp
  have off: "\<exists>s'. memFile_Write da A (s\<lparr>files := (files s)[da := f\<lparr>gf := g\<rparr>]\<rparr>) =
                   Inr ((int (length A), None), s') \<and> cells s' = cells ?s1" for g
  proof -
    let ?t = "s\<lparr>files := (files s)[da := f\<lparr>gf := g\<rparr>]\<rparr>"
    have ft: "file_at ?t da = Some (f\<lparr>gf := g\<rparr>)" by (rule file_at_update [OF f])
    have ct: "cell_at ?t (df (f\<lparr>gf := g\<rparr>)) = Some c" using c by (simp add: cell_at_files_update)
    show ?thesis using Write_result [OF ft ct, of A] by simp
  qed
  have w0: "memFile_Write da [] s = Inr ((0, None), s)"
  proof -
    have "cells s ! df f = c" using c by (simp add: cell_at_def split: if_splits)
    then have "(cells s)[df f := c\<lparr>fef := fef c @ [], feg := feg c + int (length ([]::byte list))\<rparr>] =
        (cells s)[df f := cells s ! df f]" by simp
    also have "\<dots> = cells s" by (rule list_update_id)
    finally show ?thesis using Write_result [OF f c, of "[]"] by simp
  qed
  have c2': "cell_at ?s2 (df f) =
      Some (c\<lparr>fef := fef c @ A @ B, feg := feg c + int (length A) + int (length B)\<rparr>)"
    using c2 by simp
  have fr: "\<forall>b. b \<noteq> df f \<longrightarrow> cell_at ?s1 b = cell_at s b" by (simp add: c1)
  have fa: "files ?s1 = files s \<and> ac ?s1 = ac s" by simp
  from w1 c1' fr fa off w2 c2' w0 show ?thesis by blast
qed

theorem Write_append_only_witness:
  "(let c = \<lparr>dfb = ''t'', fef = [1], feg = 1\<rparr>;
        f = \<lparr>df = 0, gf = 1\<rparr>;
        s = \<lparr>cells = [c], files = [f], ac = [(''t'', 0)]\<rparr>
    in file_at s 0 = Some f \<and> cell_at s (df f) = Some c \<and>
       (\<exists>s1 s2. memFile_Write 0 [2, 3] s = Inr ((2, None), s1) \<and>
          memFile_Write 0 [4] s1 = Inr ((1, None), s2) \<and>
          cell_at s2 0 = Some \<lparr>dfb = ''t'', fef = [1, 2, 3, 4], feg = 4\<rparr>))"
proof -
  define c :: memDataCell where "c = \<lparr>dfb = ''t'', fef = [1], feg = 1\<rparr>"
  define f :: memFile where "f = \<lparr>df = 0, gf = 1\<rparr>"
  define s :: state where "s = \<lparr>cells = [c], files = [f], ac = [(''t'', 0)]\<rparr>"
  have hf: "file_at s 0 = Some f" by (simp add: s_def file_at_def)
  have hc: "cell_at s (df f) = Some c" by (simp add: s_def f_def cell_at_def)
  obtain s1 s2 where w1: "memFile_Write 0 [2, 3] s = Inr ((int (length [2, 3 :: byte]), None), s1)"
    and w2: "memFile_Write 0 [4] s1 = Inr ((int (length [4 :: byte]), None), s2)"
    and c2: "cell_at s2 (df f) =
       Some (c\<lparr>fef := fef c @ [2, 3] @ [4], feg := feg c + int (length [2, 3 :: byte]) + int (length [4 :: byte])\<rparr>)"
    using Write_append_only [OF hf hc, of "[2, 3]" "[4]"] by blast
  have "memFile_Write 0 [2, 3] s = Inr ((2, None), s1)" using w1 by simp
  moreover have "memFile_Write 0 [4] s1 = Inr ((1, None), s2)" using w2 by simp
  moreover have "cell_at s2 0 = Some \<lparr>dfb = ''t'', fef = [1, 2, 3, 4], feg = 4\<rparr>"
    using c2 by (simp add: c_def f_def)
  ultimately have "\<exists>s1 s2. memFile_Write 0 [2, 3] s = Inr ((2, None), s1) \<and>
          memFile_Write 0 [4] s1 = Inr ((1, None), s2) \<and>
          cell_at s2 0 = Some \<lparr>dfb = ''t'', fef = [1, 2, 3, 4], feg = 4\<rparr>"
    by blast
  with hf hc show ?thesis
    unfolding Let_def c_def [symmetric] f_def [symmetric] s_def [symmetric] by simp
qed

subsection \<open>Name generation, TempFile and TempDir\<close>

text \<open>
  C9. When \<^verbatim>\<open>rand.Read\<close> reports no error (as \<^verbatim>\<open>math/rand\<close> documents it never does),
  the token is the hexadecimal encoding of the 6 bytes of the buffer handed to
  \<^verbatim>\<open>rand.Read\<close> (the first 6 bytes the source has ready), 12 characters long.
  \<^verbatim>\<open>TempFile(dir, pattern)\<close> allocates an empty cell named \<open>dir\<close>, a slash, \<open>pattern\<close> and
  the token, stores it in the map under that name, and returns a new file object on it
  with offset 0. \<^verbatim>\<open>TempDir(pattern)\<close> returns \<open>pattern\<close> followed by the token and leaves
  the whole state, so also the map, as it was.
\<close>

theorem name_generation:
  assumes "snd r = None"
  shows "\<exists>bs tok name h a s'.
     bs = fst (rand_Read r (replicate 6 0)) \<and> length bs = 6 \<and>
     (6 \<le> length (fst r) \<longrightarrow> bs = take 6 (fst r)) \<and>
     tok = hex_EncodeToString bs \<and> length tok = 12 \<and> efc r 6 = (tok, None) \<and>
     name = dir @ ''/'' @ pattern @ tok \<and>
     memStorage_TempFile r dir pattern s = ((Some h, None), s') \<and>
     cell_at s a = None \<and> file_at s h = None \<and>
     map_of (ac s') name = Some a \<and>
     cell_at s' a = Some \<lparr>dfb = name, fef = [], feg = 0\<rparr> \<and>
     file_at s' h = Some \<lparr>df = a, gf = 0\<rparr> \<and>
     memStorage_TempDir r pattern s = ((pattern @ tok, None), s)"
proof -
  let ?bs = "fst (rand_Read r (replicate 6 0))"
  let ?tok = "hex_EncodeToString ?bs"
  let ?name = "dir @ ''/'' @ pattern @ ?tok"
  let ?s' = "s\<lparr>cells := cells s @ [\<lparr>dfb = ?name, fef = [], feg = 0\<rparr>],
        files := files s @ [\<lparr>df = length (cells s), gf = 0\<rparr>],
        ac := sync_Map_Store ?name (length (cells s)) (ac s)\<rparr>"
  have l6: "length ?bs = 6" by (simp add: length_rand_Read)
  have tk: "6 \<le> length (fst r) \<longrightarrow> ?bs = take 6 (fst r)"
    by (simp add: rand_Read_def go_copy_def Let_def min_def)
  have l12: "length ?tok = 12" by (simp add: length_hex_EncodeToString l6)
  have e: "efc r 6 = (?tok, None)" by (rule efc_ok [OF assms])
  have tf: "memStorage_TempFile r dir pattern s = ((Some (length (files s)), None), ?s')"
    by (simp add: TempFile_result e)
  have td: "memStorage_TempDir r pattern s = ((pattern @ ?tok, None), s)"
    by (simp add: TempDir_result e)
  have m: "map_of (ac ?s') ?name = Some (length (cells s))" by (simp add: map_of_Store)
  have c: "cell_at ?s' (length (cells s)) = Some \<lparr>dfb = ?name, fef = [], feg = 0\<rparr>"
    by (simp add: cell_at_def)
  have f: "file_at ?s' (length (files s)) = Some \<lparr>df = length (cells s), gf = 0\<rparr>"
    by (simp add: file_at_def)
  have "?bs = fst (rand_Read r (replicate 6 0)) \<and> length ?bs = 6 \<and>
     (6 \<le> length (fst r) \<longrightarrow> ?bs = take 6 (fst r)) \<and>
     ?tok = hex_EncodeToString ?bs \<and> length ?tok = 12 \<and> efc r 6 = (?tok, None) \<and>
     ?name = dir @ ''/'' @ pattern @ ?tok \<and>
     memStorage_TempFile r dir pattern s = ((Some (length (files s)), None), ?s') \<and>
     cell_at s (length (cells s)) = None \<and> file_at s (length (files s)) = None \<and>
     map_of (ac ?s') ?name = Some (length (cells s)) \<and>
     cell_at ?s' (length (cells s)) = Some \<lparr>dfb = ?name, fef = [], feg = 0\<rparr> \<and>
     file_at ?s' (length (files s)) = Some \<lparr>df = length (cells s), gf = 0\<rparr> \<and>
     memStorage_TempDir r pattern s = ((pattern @ ?tok, None), s)"
    by (intro conjI refl l6 tk l12 e tf td m c f cell_at_length file_at_length)
  then show ?thesis by (intro exI)
qed

theorem name_generation_witness:
  "(let r = ([0x01, 0x23, 0x45, 0x67, 0x89, 0xab, 0xcd], None) in
    snd r = None \<and> efc r 6 = (''0123456789ab'', None) \<and>
    memStorage_TempDir r ''tmp'' SetAsStorage = ((''tmp0123456789ab'', None), SetAsStorage) \<and>
    memStorage_TempFile r ''dir'' ''zz'' SetAsStorage =
      ((Some 0, None),
       \<lparr>cells = [\<lparr>dfb = ''dir/zz0123456789ab'', fef = [], feg = 0\<rparr>],
          files = [\<lparr>df = 0, gf = 0\<rparr>], ac = [(''dir/zz0123456789ab'', 0)]\<rparr>))"
proof -
  define r :: rand_source where "r = ([0x01, 0x23, 0x45, 0x67, 0x89, 0xab, 0xcd], None)"
  have ok: "snd r = None" by (simp add: r_def)
  have "hex_EncodeToString (fst (rand_Read ([0x01, 0x23, 0x45, 0x67, 0x89, 0xab, 0xcd], None)
      (replicate 6 0))) = ''0123456789ab''"
    by code_simp
  then have hx: "hex_EncodeToString (fst (rand_Read r (replicate 6 0))) = ''0123456789ab''"
    by (simp only: r_def)
  obtain tok where e: "efc r 6 = (tok, None)"
      and t: "tok = hex_EncodeToString (fst (rand_Read r (replicate 6 0)))"
    using name_generation [OF ok] by blast
  have e': "efc r 6 = (''0123456789ab'', None)" using e t hx by simp
  show ?thesis
    unfolding r_def [symmetric] Let_def
    by (simp add: ok e' TempFile_result TempDir_result SetAsStorage_def sync_Map_Store_def)
qed



subsection \<open>What Open, Name, Close and Read leave alone\<close>

text \<open>
  C10. For every state and every file object \<open>h\<close> (with its cell allocated):
  \<^verbatim>\<open>Open\<close> leaves the map, the cells and the existing file objects as they are (it only
  allocates the file object it returns, or nothing when it fails); \<^verbatim>\<open>Name\<close> returns the
  name of the cell and \<^verbatim>\<open>Close\<close> returns \<^verbatim>\<open>nil\<close>, both with the state unchanged, so
  \<^verbatim>\<open>Close\<close> does not reset the offset; \<^verbatim>\<open>Read\<close>, when it returns, leaves a state that
  differs from the one before in nothing but the offset of \<open>h\<close> (the map, every cell and
  every other file object are the same), and the only other outcome is the panic of a
  slice expression, which no reachable state produces (\<open>reachable_Read_returns\<close>).
\<close>

theorem readers_leave_cells_and_map:
  assumes f: "file_at s h = Some f" and c: "cell_at s (df f) = Some c"
  shows "(\<exists>r s'. memStorage_Open path s = (r, s') \<and> ac s' = ac s \<and> cells s' = cells s \<and>
            (\<forall>h'. h' < length (files s) \<longrightarrow> file_at s' h' = file_at s h')) \<and>
     memFile_Name h s = Inr (dfb c, s) \<and>
     memFile_Close h s = (None, s) \<and>
     (memFile_Read h p s = Inl slice_bounds_out_of_range \<or>
      (\<exists>n err p' g. memFile_Read h p s =
         Inr ((n, err), p', s\<lparr>files := (files s)[h := f\<lparr>gf := g\<rparr>]\<rparr>)))"
proof (intro conjI)
  show "\<exists>r s'. memStorage_Open path s = (r, s') \<and> ac s' = ac s \<and> cells s' = cells s \<and>
            (\<forall>h'. h' < length (files s) \<longrightarrow> file_at s' h' = file_at s h')"
  proof (cases "map_of (ac s) path")
    case None
    then have "memStorage_Open path s =
        ((None, Some (errors_New (''Cannot open the file '' @ path))), s)"
      by (simp add: memStorage_Open_def sync_Map_Load_def)
    then show ?thesis by simp
  next
    case (Some a)
    have "\<forall>h'. h' < length (files s) \<longrightarrow>
        file_at (s\<lparr>files := files s @ [\<lparr>df = a, gf = 0\<rparr>]\<rparr>) h' = file_at s h'"
      by (simp add: file_at_append)
    then show ?thesis using Open_result [OF Some] by simp
  qed
  show "memFile_Name h s = Inr (dfb c, s)" by (rule Name_result [OF f c])
  show "memFile_Close h s = (None, s)" by (simp add: memFile_Close_def)
  show "memFile_Read h p s = Inl slice_bounds_out_of_range \<or>
      (\<exists>n err p' g. memFile_Read h p s =
         Inr ((n, err), p', s\<lparr>files := (files s)[h := f\<lparr>gf := g\<rparr>]\<rparr>))"
    by (rule Read_frame [OF f c])
qed

theorem readers_leave_cells_and_map_witness:
  "(let c = \<lparr>dfb = ''n'', fef = [5, 6, 7], feg = 3\<rparr>;
        f = \<lparr>df = 0, gf = 0\<rparr>;
        s = \<lparr>cells = [c], files = [f, \<lparr>df = 0, gf = 2\<rparr>], ac = [(''n'', 0)]\<rparr>
    in file_at s 0 = Some f \<and> cell_at s (df f) = Some c \<and>
       memFile_Name 0 s = Inr (''n'', s) \<and>
       memFile_Close 0 s = (None, s) \<and>
       memStorage_Open ''n'' s =
         ((Some 2, None), s\<lparr>files := [f, \<lparr>df = 0, gf = 2\<rparr>, \<lparr>df = 0, gf = 0\<rparr>]\<rparr>) \<and>
       memFile_Read 0 [0, 0] s =
         Inr ((2, None), [5, 6], s\<lparr>files := [\<lparr>df = 0, gf = 2\<rparr>, \<lparr>df = 0, gf = 2\<rparr>]\<rparr>))"
proof -
  define c :: memDataCell where "c = \<lparr>dfb = ''n'', fef = [5, 6, 7], feg = 3\<rparr>"
  define f :: memFile where "f = \<lparr>df = 0, gf = 0\<rparr>"
  define s :: state where "s = \<lparr>cells = [c], files = [f, \<lparr>df = 0, gf = 2\<rparr>], ac = [(''n'', 0)]\<rparr>"
  have hf: "file_at s 0 = Some f" by (simp add: s_def file_at_def)
  have hc: "cell_at s (df f) = Some c" by (simp add: s_def f_def cell_at_def)
  have nm: "memFile_Name 0 s = Inr (dfb c, s)" and cl: "memFile_Close 0 s = (None, s)"
    using readers_leave_cells_and_map [OF hf hc] by blast+
  have op: "memStorage_Open ''n'' s =
         ((Some 2, None), s\<lparr>files := [f, \<lparr>df = 0, gf = 2\<rparr>, \<lparr>df = 0, gf = 0\<rparr>]\<rparr>)"
    by (simp add: memStorage_Open_def sync_Map_Load_def s_def)
  have rd: "memFile_Read 0 [0, 0] s =
         Inr ((2, None), [5, 6], s\<lparr>files := [\<lparr>df = 0, gf = 2\<rparr>, \<lparr>df = 0, gf = 2\<rparr>]\<rparr>)"
    using Read_copy [OF hf hc, of 2 "[0, 0]"] by (simp add: c_def f_def s_def)
  from hf hc nm cl op rd show ?thesis
    unfolding Let_def c_def [symmetric] f_def [symmetric] s_def [symmetric]
    by (simp add: c_def)
qed

subsection \<open>Writing and reading back\<close>

text \<open>
  C2. For every state, every byte sequence \<open>B\<close> and every buffer size \<open>k > 0\<close> of the
  reader: \<^verbatim>\<open>TempFile\<close> returns a file object \<open>h\<close>; \<^verbatim>\<open>Write(B)\<close> on it succeeds;
  \<^verbatim>\<open>Open\<close> on the name of \<open>h\<close> returns a second file object; and reading that one until
  \<^verbatim>\<open>io.EOF\<close> terminates and yields exactly \<open>B\<close>, leaving the cells and the map as the
  write left them.
\<close>

theorem write_then_read_round_trip:
  assumes k: "0 < k"
  shows "\<exists>h s1 s2 name h2 s3 s4.
     memStorage_TempFile r dir pattern s = ((Some h, None), s1) \<and>
     memFile_Write h B s1 = Inr ((int (length B), None), s2) \<and>
     memFile_Name h s2 = Inr (name, s2) \<and>
     memStorage_Open name s2 = ((Some h2, None), s3) \<and>
     read_until_EOF k h2 s3 [] = Some (Inr (B, None, s4)) \<and>
     cells s4 = cells s2 \<and> ac s4 = ac s2"
proof -
  define name where "name = dir @ ''/'' @ pattern @ fst (efc r 6)"
  define a where "a = length (cells s)"
  define h where "h = length (files s)"
  define c0 :: memDataCell where "c0 = \<lparr>dfb = name, fef = [], feg = 0\<rparr>"
  define f :: memFile where "f = \<lparr>df = a, gf = 0\<rparr>"
  define s1 where "s1 = s\<lparr>cells := cells s @ [c0], files := files s @ [f],
      ac := sync_Map_Store name a (ac s)\<rparr>"
  define c where "c = c0\<lparr>fef := fef c0 @ B, feg := feg c0 + int (length B)\<rparr>"
  define s2 where "s2 = s1\<lparr>cells := (cells s1)[df f := c]\<rparr>"
  define h2 where "h2 = length (files s2)"
  define f2 :: memFile where "f2 = \<lparr>df = a, gf = 0\<rparr>"
  define s3 where "s3 = s2\<lparr>files := files s2 @ [f2]\<rparr>"
  define s4 where "s4 = s3\<lparr>files := (files s3)[h2 := f2\<lparr>gf := feg c\<rparr>]\<rparr>"
  have tf: "memStorage_TempFile r dir pattern s = ((Some h, None), s1)"
    by (simp add: TempFile_result s1_def h_def a_def c0_def f_def name_def)
  have f1: "file_at s1 h = Some f" by (simp add: s1_def h_def file_at_def)
  have c1: "cell_at s1 (df f) = Some c0" by (simp add: s1_def f_def a_def cell_at_def)
  have w: "memFile_Write h B s1 = Inr ((int (length B), None), s2)"
    unfolding s2_def c_def by (rule Write_result [OF f1 c1])
  have f2': "file_at s2 h = Some f" using f1 by (simp add: s2_def file_at_cells_update)
  have c2: "cell_at s2 (df f) = Some c"
    unfolding s2_def using cell_at_cells_update [OF c1, of c "df f"] by simp
  have dn: "dfb c = name" by (simp add: c_def c0_def)
  have nm: "memFile_Name h s2 = Inr (name, s2)"
    using Name_result [OF f2' c2] by (simp add: dn)
  have ld: "map_of (ac s2) name = Some a" by (simp add: s2_def s1_def map_of_Store)
  have op: "memStorage_Open name s2 = ((Some h2, None), s3)"
    unfolding h2_def s3_def f2_def by (rule Open_result [OF ld])
  have f3: "file_at s3 h2 = Some f2" by (simp add: s3_def h2_def file_at_append)
  have c3: "cell_at s3 (df f2) = Some c"
    using c2 by (simp add: s3_def cell_at_files_update f2_def f_def)
  have sz: "feg c = int (length (fef c))" by (simp add: c_def c0_def)
  have fc: "fef c = B" by (simp add: c_def c0_def)
  have "read_until_EOF k h2 s3 [] =
      Some (Inr ([] @ go_slice (fef c) (gf f2) (feg c), None, s4))"
    unfolding s4_def by (rule read_until_EOF_reads [OF k f3 c3]) (simp_all add: f2_def sz)
  then have rd: "read_until_EOF k h2 s3 [] = Some (Inr (B, None, s4))"
    by (simp add: f2_def sz fc go_slice_all)
  have fr: "cells s4 = cells s2 \<and> ac s4 = ac s2" by (simp add: s4_def s3_def)
  from tf w nm op rd fr show ?thesis by blast
qed

theorem write_then_read_round_trip_witness:
  "(let r = ([0xde, 0xad, 0xbe, 0xef, 0x00, 0x01], None);
        c = \<lparr>dfb = ''dir/imgdeadbeef0001'', fef = [1, 2, 3], feg = 3\<rparr>;
        s1 = \<lparr>cells = [\<lparr>dfb = ''dir/imgdeadbeef0001'', fef = [], feg = 0\<rparr>],
               files = [\<lparr>df = 0, gf = 0\<rparr>], ac = [(''dir/imgdeadbeef0001'', 0)]\<rparr>;
        s2 = s1\<lparr>cells := [c]\<rparr>;
        s3 = s2\<lparr>files := [\<lparr>df = 0, gf = 0\<rparr>, \<lparr>df = 0, gf = 0\<rparr>]\<rparr>
    in (0 :: nat) < 2 \<and>
       memStorage_TempFile r ''dir'' ''img'' SetAsStorage = ((Some 0, None), s1) \<and>
       memFile_Write 0 [1, 2, 3] s1 = Inr ((3, None), s2) \<and>
       memFile_Name 0 s2 = Inr (''dir/imgdeadbeef0001'', s2) \<and>
       memStorage_Open ''dir/imgdeadbeef0001'' s2 = ((Some 1, None), s3) \<and>
       (\<exists>s4. read_until_EOF 2 1 s3 [] = Some (Inr ([1, 2, 3], None, s4))))"
proof -
  define r :: rand_source where "r = ([0xde, 0xad, 0xbe, 0xef, 0x00, 0x01], None)"
  define s1 :: state where
    "s1 = \<lparr>cells = [\<lparr>dfb = ''dir/imgdeadbeef0001'', fef = [], feg = 0\<rparr>],
            files = [\<lparr>df = 0, gf = 0\<rparr>], ac = [(''dir/imgdeadbeef0001'', 0)]\<rparr>"
  define s2 :: state where
    "s2 = s1\<lparr>cells := [\<lparr>dfb = ''dir/imgdeadbeef0001'', fef = [1, 2, 3], feg = 3\<rparr>]\<rparr>"
  define s3 :: state where "s3 = s2\<lparr>files := [\<lparr>df = 0, gf = 0\<rparr>, \<lparr>df = 0, gf = 0\<rparr>]\<rparr>"
  have "efc ([0xde, 0xad, 0xbe, 0xef, 0x00, 0x01], None) 6 = (''deadbeef0001'', None)"
    by code_simp
  then have e: "efc r 6 = (''deadbeef0001'', None)" by (simp only: r_def)
  have tf: "memStorage_TempFile r ''dir'' ''img'' SetAsStorage = ((Some 0, None), s1)"
    by (simp add: TempFile_result e SetAsStorage_def s1_def sync_Map_Store_def)
  have w: "memFile_Write 0 [1, 2, 3] s1 = Inr ((3, None), s2)"
    by (simp add: memFile_Write_def file_at_def cell_at_def s1_def s2_def)
  have nm: "memFile_Name 0 s2 = Inr (''dir/imgdeadbeef0001'', s2)"
    by (simp add: memFile_Name_def file_at_def cell_at_def s1_def s2_def)
  have op: "memStorage_Open ''dir/imgdeadbeef0001'' s2 = ((Some 1, None), s3)"
    by (simp add: memStorage_Open_def sync_Map_Load_def s1_def s2_def s3_def)
  have pos: "(0 :: nat) < 2" by simp
  obtain h t1 t2 name h2 t3 t4 where
      "memStorage_TempFile r ''dir'' ''img'' SetAsStorage = ((Some h, None), t1)"
      "memFile_Write h [1, 2, 3] t1 = Inr ((int (length [1, 2, 3 :: byte]), None), t2)"
      "memFile_Name h t2 = Inr (name, t2)"
      "memStorage_Open name t2 = ((Some h2, None), t3)"
      "read_until_EOF 2 h2 t3 [] = Some (Inr ([1, 2, 3], None, t4))"
    using write_then_read_round_trip [OF pos, of r "''dir''" "''img''" SetAsStorage "[1, 2, 3]"]
    by blast
  then have "read_until_EOF 2 1 s3 [] = Some (Inr ([1, 2, 3], None, t4))"
    using tf w nm op by simp
  then have "\<exists>s4. read_until_EOF 2 1 s3 [] = Some (Inr ([1, 2, 3], None, s4))" ..
  with pos tf w nm op show ?thesis
    unfolding Let_def r_def [symmetric] s1_def [symmetric] s2_def [symmetric] s3_def [symmetric]
    by simp
qed

subsection \<open>The size field after Add\<close>

text \<open>
  C1 states that after every mutation of a cell, the insertion by \<^verbatim>\<open>Add\<close> included, the
  size field equals the length of the content. \<^verbatim>\<open>TempFile\<close> and \<^verbatim>\<open>Write\<close> keep this
  (\<open>TempFile_size_is_length\<close>, \<open>Write_size_is_length\<close>), but the composite literal in
  \<^verbatim>\<open>Add\<close> sets the name and the content only: for a file that holds the one byte
  \<open>0x41\<close>, the cell that \<^verbatim>\<open>Add\<close> stores has size 0 and a content of length 1, and a
  \<^verbatim>\<open>Read\<close> through a file object opened on it returns \<^verbatim>\<open>io.EOF\<close> at once, with no
  byte of the file.
\<close>

theorem Add_leaves_size_zero:
  "(let fs = (\<lambda>path. Inr [0x41]);
        c = \<lparr>dfb = ''a.bin'', fef = [0x41], feg = 0\<rparr>;
        s1 = \<lparr>cells = [c], files = [], ac = [(''a.bin'', 0)]\<rparr>;
        s2 = s1\<lparr>files := [\<lparr>df = 0, gf = 0\<rparr>]\<rparr>
    in memStorage_Add fs ''a.bin'' SetAsStorage = (None, s1) \<and>
       map_of (ac s1) ''a.bin'' = Some 0 \<and> cell_at s1 0 = Some c \<and>
       feg c = 0 \<and> int (length (fef c)) = 1 \<and>
       memStorage_Open ''a.bin'' s1 = ((Some 0, None), s2) \<and>
       memFile_Read 0 [0] s2 = Inr ((0, Some io_EOF), [0], s2))"
  by (simp add: Let_def memStorage_Add_def ioutil_ReadFile_def SetAsStorage_def
      sync_Map_Store_def cell_at_def file_at_def memStorage_Open_def sync_Map_Load_def
      memFile_Read_def)

end
